theory Spec2Isabelle
  imports Main
begin

section \<open>Values, detail maps and run-time failures\<close>

text \<open>
  The package \<^verbatim>\<open>log\<close> of \<^verbatim>\<open>pkg/util/log/log.go\<close> is embedded function by function.
  A Go \<^verbatim>\<open>interface{}\<close> held by a detail map, by the array that \<^verbatim>\<open>mapToArray\<close> builds or
  by a record handed to a logger is a value of \<open>iface\<close>: the nil interface, a string, an
  integer, a boolean, or one of the four level values of go-kit (\<^verbatim>\<open>level.DebugValue()\<close>,
  \<^verbatim>\<open>level.InfoValue()\<close>, \<^verbatim>\<open>level.WarnValue()\<close>, \<^verbatim>\<open>level.ErrorValue()\<close>). The level values
  are exported by go-kit, so a caller can store one in a detail map like any other
  value.
\<close>

datatype levelValue = DebugValue | InfoValue | WarnValue | ErrorValue

datatype iface = INil | IString string | IInt int | IBool bool | ILevel levelValue

text \<open>
  The run-time panics the code can raise: a write into a nil map, an index outside an
  array, and a method call through a nil interface or pointer.
\<close>

datatype panic = NilMapAssignment | IndexOutOfRange | NilDereference

text \<open>
  \<^verbatim>\<open>type Pairs map[string]interface{}\<close>. \<open>None\<close> is the nil map. A map that exists is
  the list of its entries, one per key; the order of the list is the order in which
  \<^verbatim>\<open>range\<close> visits the entries, which Go leaves open, so a statement for every list is a
  statement for every iteration order.
\<close>

type_synonym Pairs = "(string \<times> iface) list option"

text \<open>A list stands for a map when no key occurs twice in it.\<close>

definition wf_Pairs :: "Pairs \<Rightarrow> bool" where
  "wf_Pairs detail = (case detail of None \<Rightarrow> True | Some kvs \<Rightarrow> distinct (map fst kvs))"

text \<open>\<^verbatim>\<open>len(detail)\<close>: 0 for the nil map.\<close>

definition map_len :: "Pairs \<Rightarrow> nat" where
  "map_len detail = (case detail of None \<Rightarrow> 0 | Some kvs \<Rightarrow> length kvs)"

text \<open>\<^verbatim>\<open>v, ok := detail[k]\<close>: reading the nil map finds nothing.\<close>

definition map_index :: "Pairs \<Rightarrow> string \<Rightarrow> iface option" where
  "map_index detail k = (case detail of None \<Rightarrow> None | Some kvs \<Rightarrow> map_of kvs k)"

text \<open>\<^verbatim>\<open>delete(detail, k)\<close>: no effect on the nil map.\<close>

definition map_delete :: "Pairs \<Rightarrow> string \<Rightarrow> Pairs" where
  "map_delete detail k =
     (case detail of None \<Rightarrow> None | Some kvs \<Rightarrow> Some (filter (\<lambda>kv. fst kv \<noteq> k) kvs))"

text \<open>
  \<^verbatim>\<open>detail[k] = v\<close>: panics on the nil map; otherwise replaces the value of an existing
  key and adds a missing one.
\<close>

fun update_entry :: "string \<Rightarrow> iface \<Rightarrow> (string \<times> iface) list \<Rightarrow> (string \<times> iface) list" where
  "update_entry k v [] = [(k, v)]"
| "update_entry k v (kv # kvs) =
     (if fst kv = k then (k, v) # kvs else kv # update_entry k v kvs)"

definition map_assign :: "Pairs \<Rightarrow> string \<Rightarrow> iface \<Rightarrow> panic + Pairs" where
  "map_assign detail k v =
     (case detail of None \<Rightarrow> Inl NilMapAssignment | Some kvs \<Rightarrow> Inr (Some (update_entry k v kvs)))"

text \<open>\<^verbatim>\<open>for k, v := range detail\<close>: the entries visited; none for the nil map.\<close>

definition map_range :: "Pairs \<Rightarrow> (string \<times> iface) list" where
  "map_range detail = (case detail of None \<Rightarrow> [] | Some kvs \<Rightarrow> kvs)"

text \<open>\<^verbatim>\<open>a[i] = v\<close> on a slice: panics when \<open>i\<close> is not below the length.\<close>

definition index_assign :: "iface list \<Rightarrow> nat \<Rightarrow> iface \<Rightarrow> panic + iface list" where
  "index_assign a i v = (if i < length a then Inr (a[i := v]) else Inl IndexOutOfRange)"

section \<open>The pairs encoder\<close>

text \<open>
  The loop of \<^verbatim>\<open>mapToArray\<close>:
  \<^verbatim>\<open>for k, v := range detail { a[i] = k; a[i+1] = v; i += 2 }\<close>
\<close>

fun range_fill :: "(string \<times> iface) list \<Rightarrow> iface list \<Rightarrow> nat \<Rightarrow> panic + iface list" where
  "range_fill [] a i = Inr a"
| "range_fill (kv # rest) a i =
     (case index_assign a i (IString (fst kv)) of
        Inl e \<Rightarrow> Inl e
      | Inr a1 \<Rightarrow>
          (case index_assign a1 (i + 1) (snd kv) of
             Inl e \<Rightarrow> Inl e
           | Inr a2 \<Rightarrow> range_fill rest a2 (i + 2)))"

text \<open>
  \<^verbatim>\<open>func mapToArray(event string, detail Pairs) []interface{}\<close>. The array is allocated
  with \<^verbatim>\<open>(len(detail)*2)+2\<close> nil entries before the key \<^verbatim>\<open>"level"\<close> is looked at, and is
  then written by index. The function deletes \<^verbatim>\<open>"level"\<close> from the caller's map, so the
  model returns the map as it is left together with the array.
\<close>

definition mapToArray :: "string \<Rightarrow> Pairs \<Rightarrow> panic + (iface list \<times> Pairs)" where
  "mapToArray event detail =
     (let a = replicate (map_len detail * 2 + 2) INil in
      case (case map_index detail ''level'' of
              Some lv \<Rightarrow>
                (case index_assign a 0 (IString ''level'') of
                   Inl e \<Rightarrow> Inl e
                 | Inr a1 \<Rightarrow>
                     (case index_assign a1 1 lv of
                        Inl e \<Rightarrow> Inl e
                      | Inr a2 \<Rightarrow> Inr (a2, map_delete detail ''level'', 2)))
            | None \<Rightarrow> Inr (a, detail, 0)) of
        Inl e \<Rightarrow> Inl e
      | Inr (a0, detail', i) \<Rightarrow>
          (case index_assign a0 i (IString ''event'') of
             Inl e \<Rightarrow> Inl e
           | Inr a1 \<Rightarrow>
               (case index_assign a1 (i + 1) (IString event) of
                  Inl e \<Rightarrow> Inl e
                | Inr a2 \<Rightarrow>
                    (case range_fill (map_range detail') a2 (i + 2) of
                       Inl e \<Rightarrow> Inl e
                     | Inr a3 \<Rightarrow> Inr (a3, detail')))))"

text \<open>The key/value entries of a list of pairs, flattened as the loop writes them.\<close>

fun flatten :: "(string \<times> iface) list \<Rightarrow> iface list" where
  "flatten [] = []"
| "flatten (kv # rest) = IString (fst kv) # snd kv # flatten rest"

text \<open>
  The sequence the specification describes: the pair of \<^verbatim>\<open>"level"\<close> when the map has
  the key, then the pair of \<^verbatim>\<open>"event"\<close>, then one pair for each remaining entry.
\<close>

definition encoded :: "string \<Rightarrow> Pairs \<Rightarrow> iface list" where
  "encoded event detail =
     (case map_index detail ''level'' of Some lv \<Rightarrow> [IString ''level'', lv] | None \<Rightarrow> [])
     @ [IString ''event'', IString event]
     @ flatten (map_range (map_delete detail ''level''))"

section \<open>The loggers of go-kit and the writers\<close>

text \<open>
  Modelled from the spec: the leveled filter of \<^verbatim>\<open>github.com/go-kit/kit/log/level\<close>, the
  logfmt logger of \<^verbatim>\<open>github.com/go-kit/kit/log\<close>, \<^verbatim>\<open>os.Stdout\<close> and the rotating writer
  of \<^verbatim>\<open>lumberjack\<close> are libraries the package imports; their code is not part of the
  repository. They are modelled as the specification (section 4.2 to 4.6) and their own
  documentation describe them:
  \<^item> \<^verbatim>\<open>level.Debug\<close>, \<^verbatim>\<open>level.Info\<close>, \<^verbatim>\<open>level.Warn\<close> and \<^verbatim>\<open>level.Error\<close> put the pair
    \<^verbatim>\<open>"level"\<close>, level value in front of the record;
  \<^item> a filter made by \<^verbatim>\<open>level.NewFilter(next, option)\<close> looks for the first level value
    among the values of the record; a record whose level the option does not allow is
    dropped, every other record, also one without a level value, is handed to \<^verbatim>\<open>next\<close>;
  \<^item> a record handed to the base logger is written to the writer the base logger was
    built on.
  The filter looks at every value of the record, whoever put it there: a level value
  that a caller stored in a detail map counts like the one \<^verbatim>\<open>level.Info\<close> puts in front.
\<close>

datatype allowOption = AllowDebug | AllowInfo | AllowWarn | AllowError | AllowNone

fun allows :: "allowOption \<Rightarrow> levelValue \<Rightarrow> bool" where
  "allows AllowDebug lv = True"
| "allows AllowInfo lv = (lv \<noteq> DebugValue)"
| "allows AllowWarn lv = (lv = WarnValue \<or> lv = ErrorValue)"
| "allows AllowError lv = (lv = ErrorValue)"
| "allows AllowNone lv = False"

text \<open>
  The fields of \<^verbatim>\<open>lumberjack.Logger\<close> that \<^verbatim>\<open>New\<close> sets, and the two writers \<^verbatim>\<open>New\<close> and
  \<^verbatim>\<open>ConsoleLogger\<close> choose from.
\<close>

record lumberjack =
  Filename :: string
  MaxSize :: int
  MaxBackups :: int
  MaxAge :: int
  Compress :: bool

datatype writer = Stdout | RotatingFile lumberjack

text \<open>
  The base logger
  \<^verbatim>\<open>log.With(log.NewLogfmtLogger(log.NewSyncWriter(wr)), "time", ..., "app", ..., "caller", ...)\<close>
  is identified with the writer \<open>wr\<close> it writes to; \<open>None\<close> is the nil interface that
  \<^verbatim>\<open>noopLogger\<close> leaves in the field. \<open>NewFilter next option\<close> is the value of
  \<^verbatim>\<open>level.NewFilter(next, option)\<close>.
\<close>

datatype levelFilter = NewFilter "writer option" allowOption

text \<open>
  What an operation does to the world outside the Logger: a record reaches the base
  logger of a writer, or \<^verbatim>\<open>Close\<close> is called on a writer.
\<close>

datatype effect = Logged writer "iface list" | Closed writer

text \<open>
  How a call ends: it returns, it panics, or it ends the process through \<^verbatim>\<open>os.Exit\<close>.
  A result is the effects up to that point and the way the call ended.
\<close>

datatype 'a status = Return 'a | Panic panic | Exit int

type_synonym 'a res = "effect list \<times> 'a status"

definition ret :: "'a \<Rightarrow> 'a res" where
  "ret x = ([], Return x)"

definition lift :: "panic + 'a \<Rightarrow> 'a res" where
  "lift r = (case r of Inl p \<Rightarrow> ([], Panic p) | Inr x \<Rightarrow> ([], Return x))"

text \<open>Sequential composition: the second part runs only when the first returns.\<close>

definition seq :: "'a res \<Rightarrow> ('a \<Rightarrow> 'b res) \<Rightarrow> 'b res" where
  "seq m f =
     (case m of
        (effs, Return x) \<Rightarrow> (case f x of (effs', st) \<Rightarrow> (effs @ effs', st))
      | (effs, Panic p) \<Rightarrow> (effs, Panic p)
      | (effs, Exit c) \<Rightarrow> (effs, Exit c))"

text \<open>The first level value among the values (the odd positions) of a record.\<close>

fun find_level :: "iface list \<Rightarrow> levelValue option" where
  "find_level (k # ILevel lv # rest) = Some lv"
| "find_level (k # v # rest) = find_level rest"
| "find_level [k] = None"
| "find_level [] = None"

text \<open>\<^verbatim>\<open>Log\<close> of a base logger: a call through the nil interface panics.\<close>

definition base_Log :: "writer option \<Rightarrow> iface list \<Rightarrow> unit res" where
  "base_Log next keyvals =
     (case next of None \<Rightarrow> ([], Panic NilDereference) | Some wr \<Rightarrow> ([Logged wr keyvals], Return ()))"

text \<open>\<^verbatim>\<open>Log\<close> of a filter.\<close>

fun filter_Log :: "levelFilter \<Rightarrow> iface list \<Rightarrow> unit res" where
  "filter_Log (NewFilter next option) keyvals =
     (case find_level keyvals of
        Some lv \<Rightarrow> (if allows option lv then base_Log next keyvals else ret ())
      | None \<Rightarrow> base_Log next keyvals)"

text \<open>\<^verbatim>\<open>tl.logger.Log(a...)\<close>: the field is an interface, nil before \<^verbatim>\<open>SetLogLevel\<close>.\<close>

definition logger_Log :: "levelFilter option \<Rightarrow> iface list \<Rightarrow> unit res" where
  "logger_Log lg a =
     (case lg of None \<Rightarrow> ([], Panic NilDereference) | Some f \<Rightarrow> filter_Log f a)"

text \<open>\<^verbatim>\<open>level.Info(tl.logger).Log(a...)\<close> and its three siblings, by the level value.\<close>

definition leveled_Log :: "levelValue \<Rightarrow> levelFilter option \<Rightarrow> iface list \<Rightarrow> unit res" where
  "leveled_Log lv lg a =
     (case lg of
        None \<Rightarrow> ([], Panic NilDereference)
      | Some f \<Rightarrow> filter_Log f (IString ''level'' # ILevel lv # a))"

section \<open>Strings\<close>

text \<open>
  Modelled from the spec: \<^verbatim>\<open>strings.ToLower\<close>, \<^verbatim>\<open>strings.Replace\<close> and \<^verbatim>\<open>strconv.Itoa\<close>
  belong to Go's standard library. A string is its list of bytes.

  On a string of ASCII bytes only, \<^verbatim>\<open>strings.ToLower\<close> replaces the bytes \<^verbatim>\<open>A\<close> to \<^verbatim>\<open>Z\<close> by
  \<^verbatim>\<open>a\<close> to \<^verbatim>\<open>z\<close> and keeps every other byte. On a string with a byte outside ASCII it
  decodes the runes and maps each through the case tables of Go's \<^verbatim>\<open>unicode\<close> package.
  The tables are not modelled: \<open>ToLower_outside_ASCII\<close> is a function of which nothing
  but its type is known, so that whatever is proved of \<open>ToLower\<close> holds whatever the
  tables say, and nothing is proved of the result on such a string beyond that.
\<close>

definition isASCII :: "string \<Rightarrow> bool" where
  "isASCII s = list_all (\<lambda>c. (of_char c :: nat) < 128) s"

definition is_upper :: "char \<Rightarrow> bool" where
  "is_upper c = (65 \<le> (of_char c :: nat) \<and> (of_char c :: nat) \<le> 90)"

definition lower_char :: "char \<Rightarrow> char" where
  "lower_char c = (if is_upper c then char_of ((of_char c :: nat) + 32) else c)"

definition ToLower_outside_ASCII :: "string \<Rightarrow> string" where
  "ToLower_outside_ASCII = (SOME f. True)"

definition ToLower :: "string \<Rightarrow> string" where
  "ToLower s = (if isASCII s then map lower_char s else ToLower_outside_ASCII s)"

text \<open>
  \<open>Replace1 s old new\<close> is \<^verbatim>\<open>strings.Replace(s, old, new, 1)\<close> for a non-empty \<open>old\<close>: the
  leftmost occurrence of \<open>old\<close> is replaced, a string without one is returned as it is.
\<close>

fun Replace1 :: "string \<Rightarrow> string \<Rightarrow> string \<Rightarrow> string" where
  "Replace1 [] old new = []"
| "Replace1 (c # s) old new =
     (if take (length old) (c # s) = old then new @ drop (length old) (c # s)
      else c # Replace1 s old new)"

text \<open>\<^verbatim>\<open>strconv.Itoa\<close>: the decimal digits, after a minus sign for a negative number.\<close>

function digits :: "nat \<Rightarrow> string" where
  "digits n =
     (if n < 10 then [''0123456789'' ! n]
      else digits (n div 10) @ [''0123456789'' ! (n mod 10)])"
  by pat_completeness auto
termination
  by (relation "measure id") auto

definition Itoa :: "int \<Rightarrow> string" where
  "Itoa i = (if i < 0 then CHR ''-'' # digits (nat (- i)) else digits (nat i))"

section \<open>The Logger\<close>

text \<open>
  \<^verbatim>\<open>type Logger struct\<close>. \<open>baseLogger\<close>, \<open>logger\<close> and \<open>closer\<close> are interfaces, nil (\<open>None\<close>)
  until a constructor sets them. \<open>onceRanEntries\<close> is the map of the keys already seen;
  only the presence of a key is ever read. The field \<^verbatim>\<open>onceMutex\<close> has no counterpart:
  calls are modelled one after the other, each running to its end before the next.
  The receiver \<^verbatim>\<open>tl\<close> of the methods is written \<open>self\<close> (\<open>tl\<close> is the tail of a list in
  HOL).
\<close>

record Logger =
  baseLogger :: "writer option"
  logger :: "levelFilter option"
  closer :: "writer option"
  level :: string
  onceRanEntries :: "string \<rightharpoonup> bool"

text \<open>
  The configuration \<^verbatim>\<open>New\<close> reads: \<^verbatim>\<open>conf.Logging.LogFile\<close>, \<^verbatim>\<open>conf.Logging.LogLevel\<close> and
  \<^verbatim>\<open>conf.Main.InstanceID\<close> (the package \<^verbatim>\<open>config\<close> is taken as these three values).
\<close>

record Config =
  LogFile :: string
  LogLevel :: string
  InstanceID :: int

definition noopLogger :: Logger where
  "noopLogger =
     \<lparr>baseLogger = None, logger = None, closer = None, level = [], onceRanEntries = Map.empty\<rparr>"

text \<open>\<^verbatim>\<open>func (tl *Logger) SetLogLevel(logLevel string)\<close>\<close>

definition SetLogLevel :: "Logger \<Rightarrow> string \<Rightarrow> Logger" where
  "SetLogLevel self logLevel =
     (let self = self\<lparr>level := ToLower logLevel\<rparr> in
      if level self = ''debug'' then self\<lparr>logger := Some (NewFilter (baseLogger self) AllowDebug)\<rparr>
      else if level self = ''info'' then self\<lparr>logger := Some (NewFilter (baseLogger self) AllowInfo)\<rparr>
      else if level self = ''warn'' then self\<lparr>logger := Some (NewFilter (baseLogger self) AllowWarn)\<rparr>
      else if level self = ''error'' then self\<lparr>logger := Some (NewFilter (baseLogger self) AllowError)\<rparr>
      else if level self = ''trace'' then self\<lparr>logger := Some (NewFilter (baseLogger self) AllowDebug)\<rparr>
      else if level self = ''none'' then self\<lparr>logger := Some (NewFilter (baseLogger self) AllowNone)\<rparr>
      else self\<lparr>logger := Some (NewFilter (baseLogger self) AllowInfo)\<rparr>)"

text \<open>\<^verbatim>\<open>func ConsoleLogger(logLevel string) *Logger\<close>\<close>

definition ConsoleLogger :: "string \<Rightarrow> Logger" where
  "ConsoleLogger logLevel =
     (let l = noopLogger;
          wr = Stdout;
          l = l\<lparr>baseLogger := Some wr\<rparr>
      in SetLogLevel l logLevel)"

text \<open>\<^verbatim>\<open>func DefaultLogger() *Logger\<close>\<close>

definition DefaultLogger :: Logger where
  "DefaultLogger = ConsoleLogger ''info''"

text \<open>
  Modelled from the spec: the type assertion \<^verbatim>\<open>wr.(io.Closer)\<close> of \<^verbatim>\<open>New\<close> asks whether the
  writer has a method \<^verbatim>\<open>Close() error\<close>. Both writers have one: \<^verbatim>\<open>os.Stdout\<close> is an
  \<^verbatim>\<open>*os.File\<close>, and \<^verbatim>\<open>*lumberjack.Logger\<close> closes its file. Neither is a nil pointer, so
  the assertion succeeds with a closer that is not nil for both.
\<close>

fun as_Closer :: "writer \<Rightarrow> writer option" where
  "as_Closer Stdout = Some Stdout"
| "as_Closer (RotatingFile lj) = Some (RotatingFile lj)"

text \<open>\<^verbatim>\<open>func New(conf *config.Config) *Logger\<close>\<close>

definition New :: "Config \<Rightarrow> Logger" where
  "New conf =
     (let l = noopLogger;
          wr = (if LogFile conf = [] then Stdout
                else
                  (let logFile = LogFile conf;
                       logFile = (if InstanceID conf > 0
                                  then Replace1 logFile ''.log'' (''.'' @ Itoa (InstanceID conf) @ ''.log'')
                                  else logFile)
                   in RotatingFile \<lparr>Filename = logFile, MaxSize = 256, MaxBackups = 80,
                                     MaxAge = 7, Compress = True\<rparr>));
          l = l\<lparr>baseLogger := Some wr\<rparr>;
          l = SetLogLevel l (LogLevel conf)
      in (case as_Closer wr of Some c \<Rightarrow> l\<lparr>closer := Some c\<rparr> | None \<Rightarrow> l))"

text \<open>
  The emission operations. Each returns the detail map as the call leaves it, since
  \<^verbatim>\<open>mapToArray\<close> deletes from the caller's map. \<open>emit\<close> is the shape the four leveled
  operations share, \<^verbatim>\<open>level.X(tl.logger).Log(mapToArray(event, detail)...)\<close>, by the level
  value of \<^verbatim>\<open>X\<close>.
\<close>

definition emit :: "levelValue \<Rightarrow> Logger \<Rightarrow> string \<Rightarrow> Pairs \<Rightarrow> Pairs res" where
  "emit lv self event detail =
     seq (lift (mapToArray event detail)) (\<lambda>(a, detail').
     seq (leveled_Log lv (logger self) a) (\<lambda>_. ret detail'))"

text \<open>\<^verbatim>\<open>func (tl *Logger) Info(event string, detail Pairs)\<close>\<close>

definition Info :: "Logger \<Rightarrow> string \<Rightarrow> Pairs \<Rightarrow> Pairs res" where
  "Info self event detail =
     seq (lift (mapToArray event detail)) (\<lambda>(a, detail').
     seq (leveled_Log InfoValue (logger self) a) (\<lambda>_. ret detail'))"

text \<open>\<^verbatim>\<open>func (tl *Logger) Warn(event string, detail Pairs)\<close>\<close>

definition Warn :: "Logger \<Rightarrow> string \<Rightarrow> Pairs \<Rightarrow> Pairs res" where
  "Warn self event detail =
     seq (lift (mapToArray event detail)) (\<lambda>(a, detail').
     seq (leveled_Log WarnValue (logger self) a) (\<lambda>_. ret detail'))"

text \<open>\<^verbatim>\<open>func (tl *Logger) Error(event string, detail Pairs)\<close>\<close>

definition Error :: "Logger \<Rightarrow> string \<Rightarrow> Pairs \<Rightarrow> Pairs res" where
  "Error self event detail =
     seq (lift (mapToArray event detail)) (\<lambda>(a, detail').
     seq (leveled_Log ErrorValue (logger self) a) (\<lambda>_. ret detail'))"

text \<open>\<^verbatim>\<open>func (tl *Logger) Debug(event string, detail Pairs)\<close>\<close>

definition Debug :: "Logger \<Rightarrow> string \<Rightarrow> Pairs \<Rightarrow> Pairs res" where
  "Debug self event detail =
     seq (lift (mapToArray event detail)) (\<lambda>(a, detail').
     seq (leveled_Log DebugValue (logger self) a) (\<lambda>_. ret detail'))"

text \<open>
  \<^verbatim>\<open>func (tl *Logger) InfoOnce(key string, event string, detail Pairs) bool\<close>. The result
  is the Logger and the detail map as the call leaves them, and the boolean returned.
\<close>

definition InfoOnce :: "Logger \<Rightarrow> string \<Rightarrow> string \<Rightarrow> Pairs \<Rightarrow> (Logger \<times> Pairs \<times> bool) res" where
  "InfoOnce self key event detail =
     (let key = ''info.'' @ key in
      if onceRanEntries self key = None then
        (let self = self\<lparr>onceRanEntries := (onceRanEntries self)(key \<mapsto> True)\<rparr> in
         seq (Info self event detail) (\<lambda>detail'. ret (self, detail', True)))
      else ret (self, detail, False))"

text \<open>\<^verbatim>\<open>func (tl *Logger) WarnOnce(key string, event string, detail Pairs) bool\<close>\<close>

definition WarnOnce :: "Logger \<Rightarrow> string \<Rightarrow> string \<Rightarrow> Pairs \<Rightarrow> (Logger \<times> Pairs \<times> bool) res" where
  "WarnOnce self key event detail =
     (let key = ''warn.'' @ key in
      if onceRanEntries self key = None then
        (let self = self\<lparr>onceRanEntries := (onceRanEntries self)(key \<mapsto> True)\<rparr> in
         seq (Warn self event detail) (\<lambda>detail'. ret (self, detail', True)))
      else ret (self, detail, False))"

text \<open>\<^verbatim>\<open>func (tl *Logger) HasWarnedOnce(key string) bool\<close>\<close>

definition HasWarnedOnce :: "Logger \<Rightarrow> string \<Rightarrow> bool" where
  "HasWarnedOnce self key = (let key = ''warn.'' @ key in onceRanEntries self key \<noteq> None)"

text \<open>\<^verbatim>\<open>func (tl *Logger) ErrorOnce(key string, event string, detail Pairs) bool\<close>\<close>

definition ErrorOnce :: "Logger \<Rightarrow> string \<Rightarrow> string \<Rightarrow> Pairs \<Rightarrow> (Logger \<times> Pairs \<times> bool) res" where
  "ErrorOnce self key event detail =
     (let key = ''error.'' @ key in
      if onceRanEntries self key = None then
        (let self = self\<lparr>onceRanEntries := (onceRanEntries self)(key \<mapsto> True)\<rparr> in
         seq (Error self event detail) (\<lambda>detail'. ret (self, detail', True)))
      else ret (self, detail, False))"

text \<open>\<^verbatim>\<open>func (tl *Logger) Trace(event string, detail Pairs)\<close>\<close>

definition Trace :: "Logger \<Rightarrow> string \<Rightarrow> Pairs \<Rightarrow> Pairs res" where
  "Trace self event detail =
     (if level self = ''trace'' then
        seq (lift (map_assign detail ''level'' (IString ''trace''))) (\<lambda>detail1.
        seq (lift (mapToArray event detail1)) (\<lambda>(a, detail2).
        seq (logger_Log (logger self) a) (\<lambda>_. ret detail2)))
      else ret detail)"

text \<open>
  \<^verbatim>\<open>func (tl *Logger) Fatal(code int, event string, detail Pairs)\<close>. \<^verbatim>\<open>os.Exit(code)\<close> ends
  the process; nothing after it runs.
\<close>

definition Fatal :: "Logger \<Rightarrow> int \<Rightarrow> string \<Rightarrow> Pairs \<Rightarrow> Pairs res" where
  "Fatal self code event detail =
     seq (lift (map_assign detail ''level'' (IString ''fatal''))) (\<lambda>detail1.
     seq (lift (mapToArray event detail1)) (\<lambda>(a, detail2).
     seq (logger_Log (logger self) a) (\<lambda>_.
     if code \<ge> 0 then ([], Exit code) else ret detail2)))"

text \<open>\<^verbatim>\<open>func (tl *Logger) Level() string\<close>\<close>

definition Level :: "Logger \<Rightarrow> string" where
  "Level self = level self"

text \<open>\<^verbatim>\<open>func (tl *Logger) Close()\<close>\<close>

definition Close :: "Logger \<Rightarrow> unit res" where
  "Close self = (case closer self of Some c \<Rightarrow> ([Closed c], Return ()) | None \<Rightarrow> ret ())"

section \<open>Sequences of calls on one Logger\<close>

text \<open>
  A call of a public operation with its arguments, and the Logger after the call. The
  detail maps belong to the callers; a sequence keeps the Logger only.
\<close>

datatype call =
    CallInfo string Pairs
  | CallInfoOnce string string Pairs
  | CallWarn string Pairs
  | CallWarnOnce string string Pairs
  | CallHasWarnedOnce string
  | CallError string Pairs
  | CallErrorOnce string string Pairs
  | CallDebug string Pairs
  | CallTrace string Pairs
  | CallFatal int string Pairs
  | CallSetLogLevel string
  | CallLevel
  | CallClose

fun step :: "Logger \<Rightarrow> call \<Rightarrow> Logger res" where
  "step self (CallInfo event detail) = seq (Info self event detail) (\<lambda>_. ret self)"
| "step self (CallInfoOnce key event detail) =
     seq (InfoOnce self key event detail) (\<lambda>(self', _, _). ret self')"
| "step self (CallWarn event detail) = seq (Warn self event detail) (\<lambda>_. ret self)"
| "step self (CallWarnOnce key event detail) =
     seq (WarnOnce self key event detail) (\<lambda>(self', _, _). ret self')"
| "step self (CallHasWarnedOnce key) = seq (ret (HasWarnedOnce self key)) (\<lambda>_. ret self)"
| "step self (CallError event detail) = seq (Error self event detail) (\<lambda>_. ret self)"
| "step self (CallErrorOnce key event detail) =
     seq (ErrorOnce self key event detail) (\<lambda>(self', _, _). ret self')"
| "step self (CallDebug event detail) = seq (Debug self event detail) (\<lambda>_. ret self)"
| "step self (CallTrace event detail) = seq (Trace self event detail) (\<lambda>_. ret self)"
| "step self (CallFatal code event detail) = seq (Fatal self code event detail) (\<lambda>_. ret self)"
| "step self (CallSetLogLevel logLevel) = ret (SetLogLevel self logLevel)"
| "step self CallLevel = seq (ret (Level self)) (\<lambda>_. ret self)"
| "step self CallClose = seq (Close self) (\<lambda>_. ret self)"

fun run :: "Logger \<Rightarrow> call list \<Rightarrow> Logger res" where
  "run self [] = ret self"
| "run self (c # cs) = seq (step self c) (\<lambda>self'. run self' cs)"

section \<open>Vocabulary of the statements\<close>

text \<open>
  The array as \<^verbatim>\<open>mapToArray\<close> leaves it, for any list of entries: the encoded sequence,
  then the entries of the allocation that were never written. For a map (keys distinct)
  nothing is left unwritten.
\<close>

definition padded :: "string \<Rightarrow> Pairs \<Rightarrow> iface list" where
  "padded event detail =
     encoded event detail
     @ replicate (map_len detail * 2 + 2 - length (encoded event detail)) INil"

text \<open>
  A Logger as a constructor leaves it and \<^verbatim>\<open>SetLogLevel\<close> keeps it: the base logger
  writes to \<open>wr\<close>, and the active logger is a filter around that base logger.
\<close>

definition constructed :: "Logger \<Rightarrow> writer \<Rightarrow> bool" where
  "constructed self wr =
     (baseLogger self = Some wr \<and>
      (case logger self of Some (NewFilter next option) \<Rightarrow> next = Some wr | None \<Rightarrow> False))"

text \<open>Whether the filter of the Logger lets a record of the level pass.\<close>

definition passes :: "levelValue \<Rightarrow> Logger \<Rightarrow> bool" where
  "passes lv self =
     (case logger self of Some (NewFilter next option) \<Rightarrow> allows option lv | None \<Rightarrow> False)"

text \<open>
  The record a leveled operation hands to the filter: the pair \<^verbatim>\<open>"level"\<close>, level value,
  then the array of \<^verbatim>\<open>mapToArray\<close>.
\<close>

definition leveled_record :: "levelValue \<Rightarrow> string \<Rightarrow> Pairs \<Rightarrow> iface list" where
  "leveled_record lv event detail = IString ''level'' # ILevel lv # padded event detail"

text \<open>
  The three operations of the Once family, with the leveled operation, the level value
  and the prefix of the dedup key of each.
\<close>

datatype family = InfoFamily | WarnFamily | ErrorFamily

fun Once :: "family \<Rightarrow> Logger \<Rightarrow> string \<Rightarrow> string \<Rightarrow> Pairs \<Rightarrow> (Logger \<times> Pairs \<times> bool) res" where
  "Once InfoFamily = InfoOnce"
| "Once WarnFamily = WarnOnce"
| "Once ErrorFamily = ErrorOnce"

fun family_value :: "family \<Rightarrow> levelValue" where
  "family_value InfoFamily = InfoValue"
| "family_value WarnFamily = WarnValue"
| "family_value ErrorFamily = ErrorValue"

fun namespace :: "family \<Rightarrow> string" where
  "namespace InfoFamily = ''info.''"
| "namespace WarnFamily = ''warn.''"
| "namespace ErrorFamily = ''error.''"

text \<open>The key a call puts into \<open>onceRanEntries\<close> when it is the first with that key.\<close>

fun once_key :: "call \<Rightarrow> string option" where
  "once_key (CallInfoOnce key event detail) = Some (''info.'' @ key)"
| "once_key (CallWarnOnce key event detail) = Some (''warn.'' @ key)"
| "once_key (CallErrorOnce key event detail) = Some (''error.'' @ key)"
| "once_key c = None"

text \<open>The Logger after \<^verbatim>\<open>tl.onceRanEntries[key] = true\<close>.\<close>

definition mark :: "string \<Rightarrow> Logger \<Rightarrow> Logger" where
  "mark k self = self\<lparr>onceRanEntries := (onceRanEntries self)(k \<mapsto> True)\<rparr>"

text \<open>The keys a list of calls puts into \<open>onceRanEntries\<close>.\<close>

definition once_keys :: "call list \<Rightarrow> string set" where
  "once_keys cs = {k. \<exists>c\<in>set cs. once_key c = Some k}"

text \<open>The leveled operation a member of the Once family calls.\<close>

fun Leveled :: "family \<Rightarrow> Logger \<Rightarrow> string \<Rightarrow> Pairs \<Rightarrow> Pairs res" where
  "Leveled InfoFamily = Info"
| "Leveled WarnFamily = Warn"
| "Leveled ErrorFamily = Error"

text \<open>Whether a call is the operation of the family with the key.\<close>

fun is_once :: "family \<Rightarrow> string \<Rightarrow> call \<Rightarrow> bool" where
  "is_once fam key (CallInfoOnce k event detail) = (fam = InfoFamily \<and> k = key)"
| "is_once fam key (CallWarnOnce k event detail) = (fam = WarnFamily \<and> k = key)"
| "is_once fam key (CallErrorOnce k event detail) = (fam = ErrorFamily \<and> k = key)"
| "is_once fam key c = False"

text \<open>
  The record \<^verbatim>\<open>Trace\<close> and \<^verbatim>\<open>Fatal\<close> hand to the active logger for a detail map with the
  entries \<open>kvs\<close>: the pair \<^verbatim>\<open>"level"\<close>, tag, the pair \<^verbatim>\<open>"event"\<close>, event, and the
  entries other than \<^verbatim>\<open>"level"\<close>.
\<close>

definition tagged_record :: "string \<Rightarrow> string \<Rightarrow> (string \<times> iface) list \<Rightarrow> iface list" where
  "tagged_record tag event kvs =
     IString ''level'' # IString tag # IString ''event'' # IString event #
     flatten (filter (\<lambda>kv. fst kv \<noteq> ''level'') kvs)"

text \<open>Whether a value is one of go-kit's level values.\<close>

fun is_level :: "iface \<Rightarrow> bool" where
  "is_level (ILevel lv) = True"
| "is_level v = False"

text \<open>
  Whether the filter of the Logger hands a record on: the first level value among the
  values of the record decides, and a record without one is handed on.
\<close>

definition lets_through :: "Logger \<Rightarrow> iface list \<Rightarrow> bool" where
  "lets_through self keyvals =
     (case find_level keyvals of None \<Rightarrow> True | Some lv \<Rightarrow> passes lv self)"

text \<open>The level names \<^verbatim>\<open>SetLogLevel\<close> knows.\<close>

definition level_names :: "string list" where
  "level_names = [''debug'', ''info'', ''warn'', ''error'', ''trace'', ''none'']"

text \<open>\<^verbatim>\<open>SetLogLevel\<close> called with each string of a list in turn.\<close>

definition SetLogLevels :: "Logger \<Rightarrow> string list \<Rightarrow> Logger" where
  "SetLogLevels self logLevels = fold (\<lambda>logLevel l. SetLogLevel l logLevel) logLevels self"

text \<open>Whether \<open>old\<close> is a substring of a string.\<close>

fun occurs :: "string \<Rightarrow> string \<Rightarrow> bool" where
  "occurs old [] = (old = [])"
| "occurs old (c # s) = (take (length old) (c # s) = old \<or> occurs old s)"

text \<open>The file name of the rotating writer a Logger writes to, if it writes to one.\<close>

definition log_filename :: "Logger \<Rightarrow> string option" where
  "log_filename self =
     (case baseLogger self of
        Some (RotatingFile lj) \<Rightarrow> Some (Filename lj)
      | Some Stdout \<Rightarrow> None
      | None \<Rightarrow> None)"

section \<open>The pairs encoder (claim C2)\<close>

lemma length_flatten: "length (flatten kvs) = 2 * length kvs"
  by (induction kvs) auto

lemma range_fill_eq:
  "i + 2 * length kvs \<le> length a \<Longrightarrow>
   range_fill kvs a i = Inr (take i a @ flatten kvs @ drop (i + 2 * length kvs) a)"
proof (induction kvs arbitrary: a i)
  case Nil
  then show ?case by simp
next
  case (Cons kv rest)
  let ?a2 = "a[i := IString (fst kv), Suc i := snd kv]"
  from Cons.prems have len: "Suc (Suc i) + 2 * length rest \<le> length ?a2" by simp
  have t: "take (Suc (Suc i)) ?a2 = take i a @ [IString (fst kv), snd kv]"
    using Cons.prems by (simp add: take_Suc_conv_app_nth)
  show ?case
    using Cons.IH [OF len] Cons.prems by (simp add: index_assign_def t)
qed

lemma filter_absent:
  "map_of kvs k = None \<Longrightarrow> filter (\<lambda>kv. fst kv \<noteq> k) kvs = kvs"
  by (induction kvs) (auto split: if_splits)

lemma length_filter_key_less:
  assumes "map_of kvs k = Some v"
  shows "length (filter (\<lambda>kv. fst kv \<noteq> k) kvs) < length kvs"
proof -
  from assms have "(k, v) \<in> set kvs" by (rule map_of_SomeD)
  then show ?thesis
    using length_filter_less [of "(k, v)" kvs "\<lambda>kv. fst kv \<noteq> k"] by simp
qed

lemma length_filter_present:
  "distinct (map fst kvs) \<Longrightarrow> map_of kvs k = Some v \<Longrightarrow>
   Suc (length (filter (\<lambda>kv. fst kv \<noteq> k) kvs)) = length kvs"
proof (induction kvs)
  case Nil
  then show ?case by simp
next
  case (Cons kv kvs)
  show ?case
  proof (cases "fst kv = k")
    case True
    with Cons.prems have "k \<notin> fst ` set kvs" by auto
    then have "map_of kvs k = None" by (simp add: map_of_eq_None_iff)
    then show ?thesis using True by (simp add: filter_absent)
  next
    case False
    then show ?thesis using Cons by (cases kv) auto
  qed
qed

lemma mapToArray_eq:
  "mapToArray event detail = Inr (padded event detail, map_delete detail ''level'')"
proof (cases "map_index detail ''level''")
  case None
  then have del: "map_delete detail ''level'' = detail"
    by (auto simp: map_index_def map_delete_def filter_absent split: option.splits)
  have len: "length (map_range detail) = map_len detail"
    by (simp add: map_range_def map_len_def split: option.splits)
  show ?thesis
    using None len
    by (simp add: mapToArray_def padded_def encoded_def del index_assign_def range_fill_eq length_flatten)
next
  case (Some lv)
  then obtain kvs where kvs: "detail = Some kvs" and lk: "map_of kvs ''level'' = Some lv"
    by (auto simp: map_index_def split: option.splits)
  let ?rest = "filter (\<lambda>kv. fst kv \<noteq> ''level'') kvs"
  have less: "length ?rest < length kvs"
    using lk by (rule length_filter_key_less)
  define m where "m = length kvs - Suc (length ?rest)"
  have len: "length kvs = Suc (length ?rest + m)"
    using less by (simp add: m_def)
  have rep: "replicate (length kvs * 2 + 2) INil =
      INil # INil # INil # INil # replicate (2 * length ?rest) INil @ replicate (2 * m) INil"
    unfolding len
    by (simp add: replicate_add [symmetric] del: replicate.simps replicate_Suc)
      (simp add: eval_nat_numeral)
  have idx: "map_index detail ''level'' = Some lv" by (fact Some)
  show ?thesis
    unfolding mapToArray_def padded_def encoded_def idx
    apply (simp only: kvs map_len_def option.case rep Let_def)
    apply (simp add: map_delete_def map_range_def index_assign_def range_fill_eq
        length_flatten eval_nat_numeral)
    apply (simp add: len)
    done
qed

lemma padded_wf:
  assumes "wf_Pairs detail"
  shows "padded event detail = encoded event detail"
    and "length (encoded event detail) = 2 * map_len detail + 2"
proof -
  show len: "length (encoded event detail) = 2 * map_len detail + 2"
  proof (cases "map_index detail ''level''")
    case None
    then have del: "map_delete detail ''level'' = detail"
      by (auto simp: map_index_def map_delete_def filter_absent split: option.splits)
    show ?thesis using None
      by (simp add: encoded_def del length_flatten map_range_def map_len_def split: option.splits)
  next
    case (Some lv)
    then obtain kvs where kvs: "detail = Some kvs" and lk: "map_of kvs ''level'' = Some lv"
      by (auto simp: map_index_def split: option.splits)
    from assms kvs have dist: "distinct (map fst kvs)" by (simp add: wf_Pairs_def)
    show ?thesis
      using Some length_filter_present [OF dist lk]
      by (simp add: encoded_def kvs length_flatten map_range_def map_len_def map_delete_def)
  qed
  show "padded event detail = encoded event detail"
    by (simp add: padded_def len)
qed

text \<open>
  Claim C2. For every event name and every detail map, \<^verbatim>\<open>mapToArray\<close> returns without a
  panic an array of exactly \<open>2 * len(detail) + 2\<close> entries, the length taken at entry: the
  pair of \<^verbatim>\<open>"level"\<close> first when the map has the key, the pair of \<^verbatim>\<open>"event"\<close> next, then
  one pair per remaining entry. The key \<^verbatim>\<open>"level"\<close> is deleted from the map and is not a
  key of the remaining pairs.
\<close>

theorem mapToArray_pairs:
  assumes "wf_Pairs detail"
  shows "mapToArray event detail = Inr (encoded event detail, map_delete detail ''level'')
       \<and> length (encoded event detail) = 2 * map_len detail + 2
       \<and> map_index (map_delete detail ''level'') ''level'' = None
       \<and> ''level'' \<notin> fst ` set (map_range (map_delete detail ''level''))
       \<and> map_range (map_delete detail ''level'') =
           filter (\<lambda>kv. fst kv \<noteq> ''level'') (map_range detail)
       \<and> wf_Pairs (map_delete detail ''level'')"
proof -
  have a: "mapToArray event detail = Inr (encoded event detail, map_delete detail ''level'')"
    by (simp add: mapToArray_eq padded_wf [OF assms])
  have b: "length (encoded event detail) = 2 * map_len detail + 2"
    by (rule padded_wf [OF assms])
  have c: "''level'' \<notin> fst ` set (map_range (map_delete detail ''level''))"
    by (auto simp: map_range_def map_delete_def split: option.splits)
  have d: "map_index (map_delete detail ''level'') ''level'' = None"
    by (auto simp: map_index_def map_delete_def map_of_eq_None_iff split: option.splits)
  have e: "map_range (map_delete detail ''level'') =
           filter (\<lambda>kv. fst kv \<noteq> ''level'') (map_range detail)"
    by (simp add: map_range_def map_delete_def split: option.splits)
  have f: "wf_Pairs (map_delete detail ''level'')"
    using assms by (auto simp: wf_Pairs_def map_delete_def distinct_map_filter split: option.splits)
  from a b c d e f show ?thesis by blast
qed

text \<open>
  The example of the specification: event \<^verbatim>\<open>"e"\<close> with detail
  \<^verbatim>\<open>{"level": "debug", "x": 1}\<close> gives six entries.
\<close>

theorem mapToArray_pairs_witness:
  "wf_Pairs (Some [(''level'', IString ''debug''), (''x'', IInt 1)])
   \<and> mapToArray ''e'' (Some [(''level'', IString ''debug''), (''x'', IInt 1)]) =
       Inr ([IString ''level'', IString ''debug'', IString ''event'', IString ''e'',
             IString ''x'', IInt 1], Some [(''x'', IInt 1)])
   \<and> length [IString ''level'', IString ''debug'', IString ''event'', IString ''e'',
             IString ''x'', IInt 1] = 6"
proof -
  have wf: "wf_Pairs (Some [(''level'', IString ''debug''), (''x'', IInt 1)])"
    by (simp add: wf_Pairs_def)
  show ?thesis
    using wf mapToArray_pairs [OF wf, of "''e''"]
    by (simp add: encoded_def map_index_def map_delete_def map_range_def)
qed

section \<open>Results, filters and emissions\<close>

lemma seq_Return [simp]: "seq (effs, Return x) f = (effs @ fst (f x), snd (f x))"
  by (simp add: seq_def split: prod.splits)

lemma seq_Panic [simp]: "seq (effs, Panic p) f = (effs, Panic p)"
  by (simp add: seq_def)

lemma seq_Exit [simp]: "seq (effs, Exit c) f = (effs, Exit c)"
  by (simp add: seq_def)

lemma seq_ret [simp]: "seq (ret x) f = f x"
  by (simp add: ret_def)

lemma seq_ReturnE:
  assumes "seq m f = (effs, Return y)"
  obtains e1 x e2 where "m = (e1, Return x)" and "f x = (e2, Return y)" and "effs = e1 @ e2"
proof -
  obtain e1 st where m: "m = (e1, st)" by (cases m)
  show thesis
  proof (cases st)
    case (Return x)
    obtain e2 st2 where fx: "f x = (e2, st2)" by (cases "f x")
    from assms m Return fx have "st2 = Return y" "effs = e1 @ e2" by simp_all
    with m Return fx that show thesis by simp
  next
    case (Panic p)
    with assms m show thesis by simp
  next
    case (Exit c)
    with assms m show thesis by simp
  qed
qed

lemma find_level_skip: "\<not> is_level v \<Longrightarrow> find_level (k # v # rest) = find_level rest"
  by (cases v) simp_all

lemma find_level_flatten:
  "list_all (\<lambda>kv. \<not> is_level (snd kv)) kvs \<Longrightarrow> find_level (flatten kvs) = None"
  by (induction kvs) (auto simp: find_level_skip)

lemma emit_constructed:
  assumes "constructed self wr"
  shows "emit lv self event detail =
           (if passes lv self then [Logged wr (leveled_record lv event detail)] else [],
            Return (map_delete detail ''level''))"
proof -
  from assms obtain option where lg: "logger self = Some (NewFilter (Some wr) option)"
    by (auto simp: constructed_def split: option.splits levelFilter.splits)
  show ?thesis
    by (simp add: emit_def mapToArray_eq lift_def leveled_Log_def lg passes_def
        leveled_record_def base_Log_def ret_def)
qed

lemma leveled_emit:
  "Info = emit InfoValue" "Warn = emit WarnValue" "Error = emit ErrorValue"
  "Debug = emit DebugValue"
  by (simp_all add: fun_eq_iff Info_def Warn_def Error_def Debug_def emit_def)

lemma direct_constructed:
  assumes "constructed self wr"
  shows "logger_Log (logger self) a =
           (if lets_through self a then [Logged wr a] else [], Return ())"
proof -
  from assms obtain option where lg: "logger self = Some (NewFilter (Some wr) option)"
    by (auto simp: constructed_def split: option.splits levelFilter.splits)
  show ?thesis
    by (simp add: logger_Log_def lg lets_through_def passes_def base_Log_def ret_def
        split: option.splits)
qed

lemma constructed_mark [simp]: "constructed (mark k self) wr = constructed self wr"
  by (simp add: constructed_def mark_def)

lemma passes_mark [simp]: "passes lv (mark k self) = passes lv self"
  by (simp add: passes_def mark_def)

lemma emit_mark [simp]: "emit lv (mark k self) = emit lv self"
  by (simp add: emit_def mark_def fun_eq_iff)

lemma onceRanEntries_mark:
  "onceRanEntries (mark k self) = (onceRanEntries self)(k \<mapsto> True)"
  by (simp add: mark_def)

lemma leveled_record_nil:
  "leveled_record lv event None =
     [IString ''level'', ILevel lv, IString ''event'', IString event]"
  by (simp add: leveled_record_def padded_def encoded_def map_index_def map_delete_def
      map_range_def map_len_def)

section \<open>Levels (claims C5 and C8)\<close>

lemma SetLogLevel_level [simp]: "level (SetLogLevel self logLevel) = ToLower logLevel"
  by (simp add: SetLogLevel_def Let_def)

lemma SetLogLevel_baseLogger [simp]: "baseLogger (SetLogLevel self logLevel) = baseLogger self"
  by (simp add: SetLogLevel_def Let_def)

lemma SetLogLevel_closer [simp]: "closer (SetLogLevel self logLevel) = closer self"
  by (simp add: SetLogLevel_def Let_def)

lemma SetLogLevel_onceRanEntries [simp]:
  "onceRanEntries (SetLogLevel self logLevel) = onceRanEntries self"
  by (simp add: SetLogLevel_def Let_def)

lemma SetLogLevel_logger:
  "logger (SetLogLevel self logLevel) =
     Some (NewFilter (baseLogger self)
       (if ToLower logLevel = ''debug'' then AllowDebug
        else if ToLower logLevel = ''info'' then AllowInfo
        else if ToLower logLevel = ''warn'' then AllowWarn
        else if ToLower logLevel = ''error'' then AllowError
        else if ToLower logLevel = ''trace'' then AllowDebug
        else if ToLower logLevel = ''none'' then AllowNone
        else AllowInfo))"
  by (simp add: SetLogLevel_def Let_def)

lemma constructed_SetLogLevel:
  "baseLogger self = Some wr \<Longrightarrow> constructed (SetLogLevel self s) wr"
  by (simp add: constructed_def SetLogLevel_def Let_def)

lemma ToLower_names:
  "ToLower ''debug'' = ''debug''" "ToLower ''info'' = ''info''" "ToLower ''warn'' = ''warn''"
  "ToLower ''error'' = ''error''" "ToLower ''trace'' = ''trace''" "ToLower ''none'' = ''none''"
  by (simp_all add: ToLower_def isASCII_def lower_char_def is_upper_def)

lemma ConsoleLogger_constructed:
  "constructed (ConsoleLogger logLevel) Stdout"
  "onceRanEntries (ConsoleLogger logLevel) = Map.empty"
  "closer (ConsoleLogger logLevel) = None"
  "level (ConsoleLogger logLevel) = ToLower logLevel"
  by (simp_all add: ConsoleLogger_def noopLogger_def Let_def constructed_SetLogLevel)

lemma passes_ConsoleLogger_info:
  "passes lv (ConsoleLogger ''info'') = (lv \<noteq> DebugValue)"
  by (simp add: passes_def ConsoleLogger_def Let_def SetLogLevel_logger ToLower_names)

text \<open>
  Claim C5. A level string that is none of the six names after lowercasing, the empty
  string among them, installs the filter of \<^verbatim>\<open>"info"\<close>, which lets info, warn and error
  pass; the call returns with no effect on the world and no error. \<^verbatim>\<open>"trace"\<close> installs
  the filter of \<^verbatim>\<open>"debug"\<close>, which lets every level pass.
\<close>

theorem SetLogLevel_unknown_is_info:
  assumes "ToLower logLevel \<notin> set level_names"
  shows "logger (SetLogLevel self logLevel) = Some (NewFilter (baseLogger self) AllowInfo)
       \<and> logger (SetLogLevel self logLevel) = logger (SetLogLevel self ''info'')
       \<and> step self (CallSetLogLevel logLevel) = ([], Return (SetLogLevel self logLevel))
       \<and> logger (SetLogLevel self ''trace'') = Some (NewFilter (baseLogger self) AllowDebug)
       \<and> logger (SetLogLevel self ''trace'') = logger (SetLogLevel self ''debug'')
       \<and> (\<forall>lv. allows AllowInfo lv \<longleftrightarrow> lv \<in> {InfoValue, WarnValue, ErrorValue})
       \<and> (\<forall>lv. allows AllowDebug lv)"
proof -
  have "allows AllowInfo lv \<longleftrightarrow> lv \<in> {InfoValue, WarnValue, ErrorValue}" for lv
    by (cases lv) simp_all
  then show ?thesis
    using assms by (simp add: SetLogLevel_logger ToLower_names level_names_def ret_def)
qed

theorem SetLogLevel_unknown_is_info_witness:
  "ToLower '''' \<notin> set level_names
   \<and> logger (SetLogLevel (ConsoleLogger ''debug'') '''') = Some (NewFilter (Some Stdout) AllowInfo)
   \<and> logger (SetLogLevel (ConsoleLogger ''debug'') '''') =
       logger (SetLogLevel (ConsoleLogger ''debug'') ''info'')
   \<and> logger (SetLogLevel (ConsoleLogger ''debug'') ''trace'') =
       logger (SetLogLevel (ConsoleLogger ''debug'') ''debug'')"
proof -
  have h: "ToLower '''' \<notin> set level_names"
    by (simp add: ToLower_def isASCII_def level_names_def)
  have b: "baseLogger (ConsoleLogger ''debug'') = Some Stdout"
    by (simp add: ConsoleLogger_def Let_def)
  from h b SetLogLevel_unknown_is_info [OF h, of "ConsoleLogger ''debug''"]
  show ?thesis by (simp add: SetLogLevel_logger ToLower_names)
qed

lemma of_char_lower_char: "\<not> is_upper (lower_char c)"
proof (cases "is_upper c")
  case True
  then have "(of_char c + 32 :: nat) mod 256 = of_char c + 32"
    by (simp add: is_upper_def)
  with True show ?thesis by (simp add: lower_char_def is_upper_def)
next
  case False
  then show ?thesis by (simp add: lower_char_def)
qed

lemma ToLower_ASCII: "isASCII s \<Longrightarrow> ToLower s = map lower_char s"
  by (simp add: ToLower_def)

lemma ToLower_lowercase: "isASCII s \<Longrightarrow> \<forall>c\<in>set (ToLower s). \<not> is_upper c"
  by (auto simp: ToLower_def of_char_lower_char)

lemma SetLogLevels_level:
  "level (SetLogLevels self logLevels) =
     (if logLevels = [] then level self else ToLower (last logLevels))"
  by (induction logLevels arbitrary: self) (simp_all add: SetLogLevels_def)

lemma New_level [simp]: "level (New conf) = ToLower (LogLevel conf)"
  by (simp add: New_def Let_def split: option.splits)

text \<open>
  Claim C8 as amended. After a constructor and any calls of \<^verbatim>\<open>SetLogLevel\<close>, \<^verbatim>\<open>Level()\<close>
  is \<^verbatim>\<open>strings.ToLower\<close> of the level string given last; for an ASCII string that is
  the string with \<^verbatim>\<open>A\<close> to \<^verbatim>\<open>Z\<close> replaced by \<^verbatim>\<open>a\<close> to \<^verbatim>\<open>z\<close>, which holds no upper-case
  letter. An unknown level string is stored as it is, lowercased: the stored level is
  then not one of the six names, while the filter is the one of \<^verbatim>\<open>"info"\<close>.
\<close>

theorem stored_level_is_lowercased_input:
  "Level (SetLogLevels (ConsoleLogger logLevel) logLevels) = ToLower (last (logLevel # logLevels))
   \<and> Level (SetLogLevels (New conf) logLevels) = ToLower (last (LogLevel conf # logLevels))
   \<and> (isASCII (last (logLevel # logLevels)) \<longrightarrow>
        ToLower (last (logLevel # logLevels)) = map lower_char (last (logLevel # logLevels))
        \<and> (\<forall>c\<in>set (ToLower (last (logLevel # logLevels))). \<not> is_upper c))
   \<and> (ToLower unknown \<notin> set level_names \<longrightarrow>
        Level (SetLogLevel self unknown) = ToLower unknown
        \<and> Level (SetLogLevel self unknown) \<notin> set level_names
        \<and> logger (SetLogLevel self unknown) = Some (NewFilter (baseLogger self) AllowInfo))"
proof -
  have ascii: "ToLower s = map lower_char s \<and> (\<forall>c\<in>set (ToLower s). \<not> is_upper c)"
    if "isASCII s" for s
    using that by (simp add: ToLower_ASCII ToLower_lowercase)
  show ?thesis
    using ascii [of "last (logLevel # logLevels)"]
    by (simp add: Level_def SetLogLevels_level ConsoleLogger_constructed
        SetLogLevel_logger level_names_def)
qed

theorem stored_level_is_lowercased_input_witness:
  "Level (SetLogLevels (ConsoleLogger ''Info'') [''DEBUG'', ''Verbose'']) = ''verbose''
   \<and> isASCII ''Verbose''
   \<and> map lower_char ''Verbose'' = ''verbose''
   \<and> list_all (\<lambda>c. \<not> is_upper c) ''verbose''
   \<and> ''verbose'' \<notin> set level_names
   \<and> Level (SetLogLevel (ConsoleLogger ''Info'') ''Verbose'') = ''verbose''
   \<and> logger (SetLogLevel (ConsoleLogger ''Info'') ''Verbose'') =
       Some (NewFilter (Some Stdout) AllowInfo)"
proof -
  have a: "isASCII ''Verbose''" by (simp add: isASCII_def)
  have m: "map lower_char ''Verbose'' = ''verbose''" by code_simp
  have l: "ToLower ''Verbose'' = ''verbose''" unfolding ToLower_ASCII [OF a] by (rule m)
  have b: "baseLogger (ConsoleLogger ''Info'') = Some Stdout"
    by (simp add: ConsoleLogger_def Let_def)
  have n: "''verbose'' \<notin> set level_names" by (simp add: level_names_def)
  have u: "list_all (\<lambda>c. \<not> is_upper c) ''verbose''" by (simp add: is_upper_def)
  from n stored_level_is_lowercased_input
    [where logLevel = "''Info''" and logLevels = "[''DEBUG'', ''Verbose'']"
       and unknown = "''Verbose''" and self = "ConsoleLogger ''Info''"]
  have main: "Level (SetLogLevels (ConsoleLogger ''Info'') [''DEBUG'', ''Verbose'']) = ''verbose''
      \<and> Level (SetLogLevel (ConsoleLogger ''Info'') ''Verbose'') = ''verbose''
      \<and> logger (SetLogLevel (ConsoleLogger ''Info'') ''Verbose'') =
          Some (NewFilter (Some Stdout) AllowInfo)"
    by (simp add: l b)
  from main a m u n show ?thesis by blast
qed

text \<open>
  Claim C8 as stated fails: after \<^verbatim>\<open>SetLogLevel("verbose")\<close> the stored level is
  \<^verbatim>\<open>"verbose"\<close>, not \<^verbatim>\<open>"info"\<close> and not one of the six names.
\<close>

theorem stored_level_unknown_counterexample:
  "Level (SetLogLevel (ConsoleLogger ''info'') ''verbose'') = ''verbose''
   \<and> Level (SetLogLevel (ConsoleLogger ''info'') ''verbose'') \<noteq> ''info''
   \<and> Level (SetLogLevel (ConsoleLogger ''info'') ''verbose'') \<notin>
       set [''none'', ''error'', ''warn'', ''info'', ''debug'', ''trace'']"
  by (simp add: Level_def ToLower_def isASCII_def lower_char_def is_upper_def)

section \<open>Fatal and Trace (claims C3, C4 and C7)\<close>

lemma update_entry_filter:
  "filter (\<lambda>kv. fst kv \<noteq> k) (update_entry k v kvs) = filter (\<lambda>kv. fst kv \<noteq> k) kvs"
  by (induction kvs) auto

lemma update_entry_map_of: "map_of (update_entry k v kvs) k = Some v"
  by (induction kvs) auto

lemma update_entry_keys: "set (map fst (update_entry k v kvs)) = insert k (set (map fst kvs))"
  by (induction kvs) auto

lemma update_entry_distinct:
  "distinct (map fst kvs) \<Longrightarrow> distinct (map fst (update_entry k v kvs))"
proof (induction kvs)
  case Nil
  then show ?case by simp
next
  case (Cons kv kvs)
  then show ?case using update_entry_keys [of k v kvs] by (cases kv) auto
qed

lemma tagged_mapToArray:
  assumes "distinct (map fst kvs)"
  shows "mapToArray event (Some (update_entry ''level'' (IString tag) kvs)) =
         Inr (IString ''level'' # IString tag # IString ''event'' # IString event #
                flatten (filter (\<lambda>kv. fst kv \<noteq> ''level'') kvs),
              Some (filter (\<lambda>kv. fst kv \<noteq> ''level'') kvs))"
proof -
  have wf: "wf_Pairs (Some (update_entry ''level'' (IString tag) kvs))"
    using assms by (simp add: wf_Pairs_def update_entry_distinct)
  show ?thesis
    by (simp add: mapToArray_eq padded_wf [OF wf] encoded_def map_index_def
        update_entry_map_of map_delete_def update_entry_filter map_range_def)
qed

text \<open>
  What \<^verbatim>\<open>Fatal\<close> and \<^verbatim>\<open>Trace\<close> do with a detail map that is not nil. The record goes to
  the filter without a level value in front, so the filter hands it on unless a value
  of the detail map is itself a level value that the filter does not allow.
\<close>

lemma Fatal_detail:
  assumes "constructed self wr" and "distinct (map fst kvs)"
  shows "Fatal self code event (Some kvs) =
           (if lets_through self (tagged_record ''fatal'' event kvs)
            then [Logged wr (tagged_record ''fatal'' event kvs)] else [],
            if code \<ge> 0 then Exit code
            else Return (Some (filter (\<lambda>kv. fst kv \<noteq> ''level'') kvs)))"
  by (simp add: Fatal_def map_assign_def lift_def tagged_mapToArray [OF assms(2)]
      direct_constructed [OF assms(1)] tagged_record_def ret_def)

lemma Trace_detail:
  assumes "constructed self wr" and "distinct (map fst kvs)"
  shows "Trace self event (Some kvs) =
           (if level self = ''trace''
            then (if lets_through self (tagged_record ''trace'' event kvs)
                  then [Logged wr (tagged_record ''trace'' event kvs)] else [],
                  Return (Some (filter (\<lambda>kv. fst kv \<noteq> ''level'') kvs)))
            else ([], Return (Some kvs)))"
  by (simp add: Trace_def map_assign_def lift_def tagged_mapToArray [OF assms(2)]
      direct_constructed [OF assms(1)] tagged_record_def ret_def)

lemma lets_through_plain:
  assumes "list_all (\<lambda>kv. \<not> is_level (snd kv)) kvs"
  shows "lets_through self (tagged_record tag event kvs)"
proof -
  from assms have "list_all (\<lambda>kv. \<not> is_level (snd kv)) (filter (\<lambda>kv. fst kv \<noteq> ''level'') kvs)"
    by (simp add: list_all_iff)
  then show ?thesis
    by (simp add: lets_through_def tagged_record_def find_level_flatten)
qed

lemma nil_detail_Fatal: "Fatal self code event None = ([], Panic NilMapAssignment)"
  by (simp add: Fatal_def map_assign_def lift_def)

lemma nil_detail_Trace:
  "Trace self event None =
     (if level self = ''trace'' then ([], Panic NilMapAssignment) else ([], Return None))"
  by (simp add: Trace_def map_assign_def lift_def ret_def)

lemma passes_ConsoleLogger_none: "\<not> passes lv (ConsoleLogger ''none'')"
  by (simp add: passes_def ConsoleLogger_def Let_def SetLogLevel_logger ToLower_names)

text \<open>
  Claim C3, evaluated. On a detail map that exists, here the empty one, \<^verbatim>\<open>Fatal\<close> hands
  the record tagged \<^verbatim>\<open>"fatal"\<close> to the base logger although the level is \<^verbatim>\<open>"none"\<close>, then
  exits with the code 1, and returns for the code -1. On the nil detail map it panics
  on \<^verbatim>\<open>detail["level"] = "fatal"\<close>: no record is written and \<^verbatim>\<open>os.Exit\<close> is not reached.
\<close>

theorem Fatal_nil_detail_panics:
  "Fatal (ConsoleLogger ''none'') 1 ''e'' None = ([], Panic NilMapAssignment)
   \<and> Fatal (ConsoleLogger ''none'') (- 1) ''e'' None = ([], Panic NilMapAssignment)
   \<and> Fatal (ConsoleLogger ''none'') 1 ''e'' (Some []) =
       ([Logged Stdout [IString ''level'', IString ''fatal'', IString ''event'', IString ''e'']],
        Exit 1)
   \<and> Fatal (ConsoleLogger ''none'') (- 1) ''e'' (Some []) =
       ([Logged Stdout [IString ''level'', IString ''fatal'', IString ''event'', IString ''e'']],
        Return (Some []))"
proof -
  have c: "constructed (ConsoleLogger ''none'') Stdout" by (rule ConsoleLogger_constructed)
  have t: "lets_through (ConsoleLogger ''none'') (tagged_record ''fatal'' ''e'' [])"
    by (rule lets_through_plain) simp
  show ?thesis
    using t by (simp add: nil_detail_Fatal Fatal_detail [OF c] tagged_record_def)
qed

text \<open>
  A second input on which the record of \<^verbatim>\<open>Fatal\<close> is lost: at the level \<^verbatim>\<open>"none"\<close> a detail
  value that is a level value of go-kit makes the filter drop the record.
\<close>

lemma Fatal_level_value_detail:
  "Fatal (ConsoleLogger ''none'') (- 1) ''e'' (Some [(''x'', ILevel DebugValue)]) =
     ([], Return (Some [(''x'', ILevel DebugValue)]))"
proof -
  have c: "constructed (ConsoleLogger ''none'') Stdout" by (rule ConsoleLogger_constructed)
  have t: "\<not> lets_through (ConsoleLogger ''none'')
             (tagged_record ''fatal'' ''e'' [(''x'', ILevel DebugValue)])"
    by (simp add: lets_through_def tagged_record_def passes_ConsoleLogger_none)
  show ?thesis
    using t by (simp add: Fatal_detail [OF c])
qed

text \<open>
  Claim C4, evaluated. With the stored level \<^verbatim>\<open>"trace"\<close>, \<^verbatim>\<open>Trace\<close> hands the record tagged
  \<^verbatim>\<open>"trace"\<close> to the base logger for a detail map that exists, here the empty one; with
  the stored level \<^verbatim>\<open>"debug"\<close> it writes nothing, for the empty and for the nil map. On
  the nil detail map with the stored level \<^verbatim>\<open>"trace"\<close> it panics on
  \<^verbatim>\<open>detail["level"] = "trace"\<close> and no record is written.
\<close>

theorem Trace_nil_detail_panics:
  "level (ConsoleLogger ''trace'') = ''trace''
   \<and> Trace (ConsoleLogger ''trace'') ''e'' None = ([], Panic NilMapAssignment)
   \<and> Trace (ConsoleLogger ''trace'') ''e'' (Some []) =
       ([Logged Stdout [IString ''level'', IString ''trace'', IString ''event'', IString ''e'']],
        Return (Some []))
   \<and> Trace (ConsoleLogger ''debug'') ''e'' (Some []) = ([], Return (Some []))
   \<and> Trace (ConsoleLogger ''debug'') ''e'' None = ([], Return None)"
proof -
  have c: "constructed (ConsoleLogger ''trace'') Stdout"
    and c': "constructed (ConsoleLogger ''debug'') Stdout"
    by (rule ConsoleLogger_constructed)+
  have t: "lets_through (ConsoleLogger ''trace'') (tagged_record ''trace'' ''e'' [])"
    by (rule lets_through_plain) simp
  show ?thesis
    using t
    by (simp add: nil_detail_Trace Trace_detail [OF c] Trace_detail [OF c']
        ConsoleLogger_constructed ToLower_names tagged_record_def)
qed

lemma nil_detail_leveled:
  assumes "constructed self wr"
  shows "emit lv self event None =
           (if passes lv self
            then [Logged wr [IString ''level'', ILevel lv,
                             IString ''event'', IString event]]
            else [],
            Return None)"
  by (simp add: emit_constructed [OF assms] leveled_record_def padded_def encoded_def
      map_index_def map_delete_def map_range_def map_len_def)

text \<open>
  Claim C7, evaluated at a nil detail map. \<^verbatim>\<open>Fatal\<close> panics, and so does \<^verbatim>\<open>Trace\<close> when
  the stored level is \<^verbatim>\<open>"trace"\<close>: both write into the map before encoding it. \<^verbatim>\<open>Trace\<close>
  at another level returns, and \<^verbatim>\<open>Info\<close> logs the level and event pairs only.
\<close>

theorem nil_detail_panics:
  "Fatal (ConsoleLogger ''info'') (- 1) ''e'' None = ([], Panic NilMapAssignment)
   \<and> Trace (ConsoleLogger ''trace'') ''e'' None = ([], Panic NilMapAssignment)
   \<and> Trace (ConsoleLogger ''info'') ''e'' None = ([], Return None)
   \<and> Info (ConsoleLogger ''info'') ''e'' None =
       ([Logged Stdout [IString ''level'', ILevel InfoValue,
                        IString ''event'', IString ''e'']], Return None)"
proof -
  have p: "passes InfoValue (ConsoleLogger ''info'')"
    by (simp add: passes_def ConsoleLogger_def Let_def SetLogLevel_logger ToLower_names)
  show ?thesis
    by (simp add: nil_detail_Fatal nil_detail_Trace ConsoleLogger_constructed ToLower_names
        leveled_emit nil_detail_leveled [OF ConsoleLogger_constructed(1)] p)
qed

section \<open>Constructors (claims C9 and C6)\<close>

lemma occurs_iff: "occurs old s \<longleftrightarrow> (\<exists>p t. s = p @ old @ t)"
proof (induction s)
  case Nil
  then show ?case by auto
next
  case (Cons c s)
  show ?case
  proof
    assume "occurs old (c # s)"
    then consider "take (length old) (c # s) = old" | "occurs old s" by auto
    then show "\<exists>p t. c # s = p @ old @ t"
    proof cases
      case 1
      then have "c # s = [] @ old @ drop (length old) (c # s)"
        by (metis append_Nil append_take_drop_id)
      then show ?thesis by blast
    next
      case 2
      with Cons.IH obtain p t where "s = p @ old @ t" by blast
      then have "c # s = (c # p) @ old @ t" by simp
      then show ?thesis by blast
    qed
  next
    assume "\<exists>p t. c # s = p @ old @ t"
    then obtain p t where pt: "c # s = p @ old @ t" by blast
    show "occurs old (c # s)"
    proof (cases p)
      case Nil
      with pt have "take (length old) (c # s) = old" by simp
      then show ?thesis by simp
    next
      case (Cons a p')
      with pt have "s = p' @ old @ t" by simp
      with Cons.IH have "occurs old s" by blast
      then show ?thesis by simp
    qed
  qed
qed

lemma take_prefix_of: "n \<le> length xs \<Longrightarrow> take n (xs @ ys) = take n xs"
  by simp

lemma Replace1_absent: "\<not> occurs old s \<Longrightarrow> Replace1 s old new = s"
  by (induction s) auto

lemma Replace1_first:
  assumes "old \<noteq> []" and "\<not> occurs old (pre @ butlast old)"
  shows "Replace1 (pre @ old @ post) old new = pre @ new @ post"
  using assms(2)
proof (induction pre)
  case Nil
  from assms(1) obtain c r where old: "old = c # r" by (cases old) auto
  show ?case by (simp add: old)
next
  case (Cons c pre)
  have no: "take (length old) (c # pre @ old @ post) \<noteq> old"
  proof
    assume eq: "take (length old) (c # pre @ old @ post) = old"
    have le: "length old \<le> length ((c # pre) @ butlast old)" by simp
    have split: "(c # pre) @ old @ post = ((c # pre) @ butlast old) @ (last old # post)"
      using assms(1) by simp
    have "take (length old) ((c # pre) @ old @ post) =
               take (length old) ((c # pre) @ butlast old)"
      unfolding split using le by (rule take_prefix_of)
    with eq have "take (length old) ((c # pre) @ butlast old) = old" by simp
    then have "occurs old ((c # pre) @ butlast old)" by simp
    with Cons.prems show False by simp
  qed
  from Cons.prems have "\<not> occurs old (pre @ butlast old)" by simp
  from Cons.IH [OF this] no show ?case by simp
qed

lemma log_filename_New:
  assumes "LogFile conf \<noteq> []"
  shows "log_filename (New conf) =
           Some (if InstanceID conf > 0
                 then Replace1 (LogFile conf) ''.log'' (''.'' @ Itoa (InstanceID conf) @ ''.log'')
                 else LogFile conf)"
  using assms by (simp add: New_def Let_def log_filename_def)

text \<open>
  Claim C9. With a log file configured and an instance identifier above 0, the file
  name of the rotating writer is the path with its first \<^verbatim>\<open>".log"\<close> replaced by
  \<^verbatim>\<open>"."\<close>, the decimal identifier, \<^verbatim>\<open>".log"\<close> (a path without \<^verbatim>\<open>".log"\<close> is kept); with
  the identifier 0 the path is used as it is.
\<close>

theorem New_log_filename:
  assumes "LogFile conf \<noteq> []"
  shows "(InstanceID conf > 0 \<and> LogFile conf = pre @ ''.log'' @ post
            \<and> \<not> occurs ''.log'' (pre @ ''.lo'') \<longrightarrow>
          log_filename (New conf) = Some (pre @ ''.'' @ Itoa (InstanceID conf) @ ''.log'' @ post))
       \<and> (InstanceID conf > 0 \<and> \<not> occurs ''.log'' (LogFile conf) \<longrightarrow>
          log_filename (New conf) = Some (LogFile conf))
       \<and> (InstanceID conf = 0 \<longrightarrow> log_filename (New conf) = Some (LogFile conf))"
proof -
  have first: "Replace1 (pre @ ''.log'' @ post) ''.log'' new = pre @ new @ post"
    if "\<not> occurs ''.log'' (pre @ ''.lo'')" for new
    using Replace1_first [of "''.log''" pre post new] that by simp
  show ?thesis
    unfolding log_filename_New [OF assms]
    using first [of "''.'' @ Itoa (InstanceID conf) @ ''.log''"]
    by (auto simp: Replace1_absent)
qed

theorem New_log_filename_witness:
  "LogFile \<lparr>LogFile = ''app.log'', LogLevel = ''info'', InstanceID = 3\<rparr> \<noteq> []
   \<and> InstanceID \<lparr>LogFile = ''app.log'', LogLevel = ''info'', InstanceID = 3\<rparr> > 0
   \<and> \<not> occurs ''.log'' (''app'' @ ''.lo'')
   \<and> log_filename (New \<lparr>LogFile = ''app.log'', LogLevel = ''info'', InstanceID = 3\<rparr>) =
       Some ''app.3.log''
   \<and> log_filename (New \<lparr>LogFile = ''app.log'', LogLevel = ''info'', InstanceID = 0\<rparr>) =
       Some ''app.log''"
proof -
  have h: "LogFile \<lparr>LogFile = ''app.log'', LogLevel = ''info'', InstanceID = i\<rparr> \<noteq> []" for i
    by simp
  have i: "Itoa 3 = ''3''" by (simp add: Itoa_def)
  have o: "\<not> occurs ''.log'' (''app'' @ ''.lo'')" by simp
  from New_log_filename [OF h [of 3], of "''app''" "[]"]
       New_log_filename [OF h [of 0], of "[]" "[]"] o i
  show ?thesis by simp
qed

text \<open>
  Claim C6, evaluated at a configuration without a log file. \<^verbatim>\<open>New\<close> keeps
  \<^verbatim>\<open>os.Stdout\<close> as the closer, and \<^verbatim>\<open>Close\<close> then closes standard output;
  \<^verbatim>\<open>ConsoleLogger\<close> keeps no closer and its \<^verbatim>\<open>Close\<close> does nothing.
\<close>

theorem New_without_file_closes_Stdout:
  "closer (New \<lparr>LogFile = [], LogLevel = ''info'', InstanceID = 0\<rparr>) = Some Stdout
   \<and> Close (New \<lparr>LogFile = [], LogLevel = ''info'', InstanceID = 0\<rparr>) =
       ([Closed Stdout], Return ())
   \<and> closer (ConsoleLogger ''info'') = None
   \<and> Close (ConsoleLogger ''info'') = ([], Return ())"
  by (simp add: New_def Let_def Close_def ConsoleLogger_constructed ret_def)

section \<open>Sequences of calls and the Once family (claims C1 and C10)\<close>

lemma once_keys_simps [simp]:
  "once_keys [] = {}"
  "once_keys (c # cs) = set_option (once_key c) \<union> once_keys cs"
  by (auto simp: once_keys_def)

lemma Once_eq:
  "Once fam self key event detail =
     (if onceRanEntries self (namespace fam @ key) = None
      then seq (emit (family_value fam) self event detail)
             (\<lambda>d. ret (mark (namespace fam @ key) self, d, True))
      else ret (self, detail, False))"
  by (cases fam)
    (simp_all add: InfoOnce_def WarnOnce_def ErrorOnce_def Let_def leveled_emit
      mark_def [symmetric])

lemma Once_step:
  assumes "constructed self wr"
  shows "Once fam self key event detail =
     (if onceRanEntries self (namespace fam @ key) = None
      then (if passes (family_value fam) self
            then [Logged wr (leveled_record (family_value fam) event detail)] else [],
            Return (mark (namespace fam @ key) self, map_delete detail ''level'', True))
      else ([], Return (self, detail, False)))"
  by (simp add: Once_eq emit_constructed [OF assms] ret_def)

lemma dom_mark: "dom (onceRanEntries (mark k self)) = insert k (dom (onceRanEntries self))"
  by (simp add: mark_def)

lemma dom_mark_present:
  "onceRanEntries self k \<noteq> None \<Longrightarrow> insert k (dom (onceRanEntries self)) = dom (onceRanEntries self)"
  by auto

lemma step_Return:
  assumes c: "constructed self wr" and s: "step self c = (effs, Return self')"
  shows "constructed self' wr \<and>
         dom (onceRanEntries self') = dom (onceRanEntries self) \<union> set_option (once_key c)"
proof (cases c)
  case (CallInfoOnce key event detail)
  with s c show ?thesis
    using Once_step [OF c, of InfoFamily key event detail]
    by (auto simp: mark_def constructed_def ret_def split: if_splits)
next
  case (CallWarnOnce key event detail)
  with s c show ?thesis
    using Once_step [OF c, of WarnFamily key event detail]
    by (auto simp: mark_def constructed_def ret_def split: if_splits)
next
  case (CallErrorOnce key event detail)
  with s c show ?thesis
    using Once_step [OF c, of ErrorFamily key event detail]
    by (auto simp: mark_def constructed_def ret_def split: if_splits)
next
  case (CallSetLogLevel logLevel)
  from c have "baseLogger self = Some wr" by (simp add: constructed_def)
  then have "constructed (SetLogLevel self logLevel) wr" by (rule constructed_SetLogLevel)
  then show ?thesis using s CallSetLogLevel by (auto simp: ret_def)
qed (use s c in \<open>auto simp: ret_def elim!: seq_ReturnE\<close>)

lemma run_Return:
  assumes "constructed self wr" and "run self cs = (effs, Return self')"
  shows "constructed self' wr \<and>
         dom (onceRanEntries self') = dom (onceRanEntries self) \<union> once_keys cs"
  using assms
proof (induction cs arbitrary: self effs)
  case Nil
  then show ?case by (simp add: ret_def)
next
  case (Cons c cs)
  from Cons.prems(2) obtain e1 mid e2 where
    st: "step self c = (e1, Return mid)" and rn: "run mid cs = (e2, Return self')"
    by (auto elim!: seq_ReturnE)
  from step_Return [OF Cons.prems(1) st] have
    m: "constructed mid wr"
    and d: "dom (onceRanEntries mid) = dom (onceRanEntries self) \<union> set_option (once_key c)"
    by simp_all
  from Cons.IH [OF m rn] d show ?case by auto
qed

lemma step_Once_calls:
  assumes "constructed self wr"
  shows "step self (CallInfoOnce key event detail) =
           (fst (Once InfoFamily self key event detail),
            Return (if onceRanEntries self (''info.'' @ key) = None
                    then mark (''info.'' @ key) self else self))"
    and "step self (CallWarnOnce key event detail) =
           (fst (Once WarnFamily self key event detail),
            Return (if onceRanEntries self (''warn.'' @ key) = None
                    then mark (''warn.'' @ key) self else self))"
    and "step self (CallErrorOnce key event detail) =
           (fst (Once ErrorFamily self key event detail),
            Return (if onceRanEntries self (''error.'' @ key) = None
                    then mark (''error.'' @ key) self else self))"
  using Once_step [OF assms, of InfoFamily key event detail]
        Once_step [OF assms, of WarnFamily key event detail]
        Once_step [OF assms, of ErrorFamily key event detail]
  by (simp_all add: ret_def)

lemma once_key_is_once:
  "once_key c = Some (namespace fam @ key) \<longleftrightarrow> is_once fam key c"
  by (cases c; cases fam) simp_all

lemma once_keys_is_once:
  "namespace fam @ key \<in> once_keys cs \<longleftrightarrow> list_ex (is_once fam key) cs"
  by (simp add: once_keys_def once_key_is_once list_ex_iff)

lemma Leveled_emit: "Leveled fam = emit (family_value fam)"
  by (cases fam) (simp_all add: leveled_emit)

lemma absent_after_run:
  assumes "constructed self0 wr"
    and "onceRanEntries self0 (namespace fam @ key) = None"
    and "\<not> list_ex (is_once fam key) cs"
    and "run self0 cs = (effs, Return self1)"
  shows "onceRanEntries self1 (namespace fam @ key) = None"
proof -
  from run_Return [OF assms(1,4)]
  have "dom (onceRanEntries self1) = dom (onceRanEntries self0) \<union> once_keys cs" by simp
  moreover from assms(2) have "namespace fam @ key \<notin> dom (onceRanEntries self0)" by auto
  moreover from assms(3) have "namespace fam @ key \<notin> once_keys cs"
    by (simp add: once_keys_is_once)
  ultimately show ?thesis by auto
qed

lemma present_after_run:
  assumes "constructed self0 wr"
    and "onceRanEntries self0 k \<noteq> None"
    and "run self0 cs = (effs, Return self1)"
  shows "onceRanEntries self1 k \<noteq> None"
proof -
  from run_Return [OF assms(1,3)]
  have "dom (onceRanEntries self1) = dom (onceRanEntries self0) \<union> once_keys cs" by simp
  moreover from assms(2) have "k \<in> dom (onceRanEntries self0)" by auto
  ultimately show ?thesis by auto
qed

text \<open>
  Claim C1. On a Logger that has not seen the key in the family's namespace, after any
  calls that do not include the same operation with the same key, the operation returns
  true and its effects are those of one call of the leveled operation (one record when
  the filter lets the level pass, none otherwise). After that, whatever calls come in
  between, the same operation with the same key returns false, writes nothing and
  leaves the Logger and the detail map unchanged.
\<close>

theorem Once_first_true_then_false:
  assumes "constructed self0 wr"
    and "onceRanEntries self0 (namespace fam @ key) = None"
    and "\<not> list_ex (is_once fam key) before"
    and "run self0 before = (effs0, Return self1)"
  shows "Once fam self1 key event detail =
           (if passes (family_value fam) self1
            then [Logged wr (leveled_record (family_value fam) event detail)] else [],
            Return (mark (namespace fam @ key) self1, map_delete detail ''level'', True))
       \<and> fst (Once fam self1 key event detail) = fst (Leveled fam self1 event detail)
       \<and> (\<forall>between effs2 self3 event' detail'.
            run (mark (namespace fam @ key) self1) between = (effs2, Return self3) \<longrightarrow>
            Once fam self3 key event' detail' = ([], Return (self3, detail', False)))"
proof -
  from run_Return [OF assms(1,4)] have c1: "constructed self1 wr" by simp
  have absent: "onceRanEntries self1 (namespace fam @ key) = None"
    using assms by (rule absent_after_run)
  have first: "Once fam self1 key event detail =
           (if passes (family_value fam) self1
            then [Logged wr (leveled_record (family_value fam) event detail)] else [],
            Return (mark (namespace fam @ key) self1, map_delete detail ''level'', True))"
    by (simp add: Once_step [OF c1] absent)
  have same: "fst (Once fam self1 key event detail) = fst (Leveled fam self1 event detail)"
    by (simp add: first Leveled_emit emit_constructed [OF c1])
  have later: "Once fam self3 key event' detail' = ([], Return (self3, detail', False))"
    if r: "run (mark (namespace fam @ key) self1) between = (effs2, Return self3)"
    for between effs2 self3 event' detail'
  proof -
    have cm: "constructed (mark (namespace fam @ key) self1) wr" using c1 by simp
    have pm: "onceRanEntries (mark (namespace fam @ key) self1) (namespace fam @ key) \<noteq> None"
      by (simp add: mark_def)
    from run_Return [OF cm r] have c3: "constructed self3 wr" by simp
    from present_after_run [OF cm pm r]
    show ?thesis by (simp add: Once_step [OF c3])
  qed
  from first same later show ?thesis by blast
qed

theorem Once_first_true_then_false_witness:
  "constructed (ConsoleLogger ''info'') Stdout
   \<and> onceRanEntries (ConsoleLogger ''info'') (namespace WarnFamily @ ''k'') = None
   \<and> \<not> list_ex (is_once WarnFamily ''k'')
         [CallInfoOnce ''k'' ''e'' None, CallErrorOnce ''k'' ''e'' None]
   \<and> run (ConsoleLogger ''info'') [CallInfoOnce ''k'' ''e'' None, CallErrorOnce ''k'' ''e'' None] =
       ([Logged Stdout (leveled_record InfoValue ''e'' None),
         Logged Stdout (leveled_record ErrorValue ''e'' None)],
        Return (mark ''error.k'' (mark ''info.k'' (ConsoleLogger ''info''))))
   \<and> WarnOnce (mark ''error.k'' (mark ''info.k'' (ConsoleLogger ''info''))) ''k'' ''w'' None =
       ([Logged Stdout [IString ''level'', ILevel WarnValue,
                        IString ''event'', IString ''w'']],
        Return (mark ''warn.k'' (mark ''error.k'' (mark ''info.k'' (ConsoleLogger ''info''))),
                None, True))
   \<and> run (mark ''warn.k'' (mark ''error.k'' (mark ''info.k'' (ConsoleLogger ''info''))))
         [CallSetLogLevel ''debug''] =
       ([], Return (SetLogLevel
              (mark ''warn.k'' (mark ''error.k'' (mark ''info.k'' (ConsoleLogger ''info''))))
              ''debug''))
   \<and> WarnOnce (SetLogLevel
              (mark ''warn.k'' (mark ''error.k'' (mark ''info.k'' (ConsoleLogger ''info''))))
              ''debug'') ''k'' ''again'' (Some []) =
       ([], Return (SetLogLevel
              (mark ''warn.k'' (mark ''error.k'' (mark ''info.k'' (ConsoleLogger ''info''))))
              ''debug'', Some [], False))"
proof -
  let ?l0 = "ConsoleLogger ''info''"
  let ?before = "[CallInfoOnce ''k'' ''e'' None, CallErrorOnce ''k'' ''e'' None]"
  let ?l1 = "mark ''error.k'' (mark ''info.k'' ?l0)"
  let ?l2 = "mark ''warn.k'' ?l1"
  have c: "constructed ?l0 Stdout" by (rule ConsoleLogger_constructed)
  have c1: "constructed (mark ''info.k'' ?l0) Stdout" using c by simp
  have a: "onceRanEntries ?l0 (namespace WarnFamily @ ''k'') = None"
    by (simp add: ConsoleLogger_constructed)
  have n: "\<not> list_ex (is_once WarnFamily ''k'') ?before" by simp
  have r: "run ?l0 ?before =
       ([Logged Stdout (leveled_record InfoValue ''e'' None),
         Logged Stdout (leveled_record ErrorValue ''e'' None)], Return ?l1)"
    by (simp add: step_Once_calls [OF c] step_Once_calls [OF c1] Once_step [OF c]
        Once_step [OF c1] ConsoleLogger_constructed passes_ConsoleLogger_info
        onceRanEntries_mark ret_def del: step.simps Once.simps)
  have b: "run ?l2 [CallSetLogLevel ''debug''] = ([], Return (SetLogLevel ?l2 ''debug''))"
    by (simp add: ret_def)
  from Once_first_true_then_false [OF c a n r, of "''w''" None]
  have "Once WarnFamily ?l1 ''k'' ''w'' None =
          (if passes (family_value WarnFamily) ?l1
           then [Logged Stdout (leveled_record (family_value WarnFamily) ''w'' None)] else [],
           Return (mark (namespace WarnFamily @ ''k'') ?l1, map_delete None ''level'', True))"
    and later: "\<And>between effs2 self3 event' detail'.
            run (mark (namespace WarnFamily @ ''k'') ?l1) between = (effs2, Return self3) \<Longrightarrow>
            Once WarnFamily self3 ''k'' event' detail' = ([], Return (self3, detail', False))"
    by blast+
  then have first: "WarnOnce ?l1 ''k'' ''w'' None =
       ([Logged Stdout [IString ''level'', ILevel WarnValue,
                        IString ''event'', IString ''w'']],
        Return (?l2, None, True))"
    by (simp add: passes_ConsoleLogger_info leveled_record_nil map_delete_def)
  from later [of "[CallSetLogLevel ''debug'']" "[]" "SetLogLevel ?l2 ''debug''" "''again''" "Some []"] b
  have again: "WarnOnce (SetLogLevel ?l2 ''debug'') ''k'' ''again'' (Some []) =
       ([], Return (SetLogLevel ?l2 ''debug'', Some [], False))"
    by simp
  from c a n r first b again show ?thesis by blast
qed

text \<open>
  Claim C10. After any calls on a new Logger, \<^verbatim>\<open>HasWarnedOnce(key)\<close> is true exactly when
  \<^verbatim>\<open>WarnOnce\<close> was among the calls with that key; calls of \<^verbatim>\<open>InfoOnce\<close> and \<^verbatim>\<open>ErrorOnce\<close>
  with the key do not count, and without such a call of \<^verbatim>\<open>WarnOnce\<close> the next one
  returns true.
\<close>

theorem HasWarnedOnce_iff_WarnOnce_called:
  assumes "constructed self0 wr"
    and "onceRanEntries self0 = Map.empty"
    and "run self0 calls = (effs, Return self1)"
  shows "HasWarnedOnce self1 key = list_ex (is_once WarnFamily key) calls
       \<and> (\<not> list_ex (is_once WarnFamily key) calls \<longrightarrow>
            snd (WarnOnce self1 key event detail) =
              Return (mark (''warn.'' @ key) self1, map_delete detail ''level'', True))"
proof -
  from run_Return [OF assms(1,3)] have c1: "constructed self1 wr"
    and d: "dom (onceRanEntries self1) = dom (onceRanEntries self0) \<union> once_keys calls"
    by simp_all
  from d assms(2) have d': "dom (onceRanEntries self1) = once_keys calls" by simp
  have "HasWarnedOnce self1 key \<longleftrightarrow> namespace WarnFamily @ key \<in> dom (onceRanEntries self1)"
    by (auto simp: HasWarnedOnce_def Let_def)
  then have iff: "HasWarnedOnce self1 key = list_ex (is_once WarnFamily key) calls"
    unfolding d' once_keys_is_once .
  have first: "snd (WarnOnce self1 key event detail) =
      Return (mark (''warn.'' @ key) self1, map_delete detail ''level'', True)"
    if "\<not> list_ex (is_once WarnFamily key) calls"
  proof -
    from that have "namespace WarnFamily @ key \<notin> dom (onceRanEntries self1)"
      unfolding d' once_keys_is_once .
    then have "onceRanEntries self1 (namespace WarnFamily @ key) = None" by auto
    then show ?thesis
      using Once_step [OF c1, of WarnFamily key event detail] by simp
  qed
  from iff first show ?thesis by blast
qed

theorem HasWarnedOnce_iff_WarnOnce_called_witness:
  "constructed (ConsoleLogger ''info'') Stdout
   \<and> onceRanEntries (ConsoleLogger ''info'') = Map.empty
   \<and> run (ConsoleLogger ''info'') [CallInfoOnce ''k'' ''e'' None, CallErrorOnce ''k'' ''e'' None] =
       ([Logged Stdout (leveled_record InfoValue ''e'' None),
         Logged Stdout (leveled_record ErrorValue ''e'' None)],
        Return (mark ''error.k'' (mark ''info.k'' (ConsoleLogger ''info''))))
   \<and> \<not> HasWarnedOnce (mark ''error.k'' (mark ''info.k'' (ConsoleLogger ''info''))) ''k''
   \<and> snd (WarnOnce (mark ''error.k'' (mark ''info.k'' (ConsoleLogger ''info''))) ''k'' ''w'' None) =
       Return (mark ''warn.k'' (mark ''error.k'' (mark ''info.k'' (ConsoleLogger ''info''))),
               None, True)
   \<and> run (ConsoleLogger ''info'') [CallInfoOnce ''k'' ''e'' None, CallWarnOnce ''k'' ''e'' None] =
       ([Logged Stdout (leveled_record InfoValue ''e'' None),
         Logged Stdout (leveled_record WarnValue ''e'' None)],
        Return (mark ''warn.k'' (mark ''info.k'' (ConsoleLogger ''info''))))
   \<and> HasWarnedOnce (mark ''warn.k'' (mark ''info.k'' (ConsoleLogger ''info''))) ''k''"
proof -
  let ?l0 = "ConsoleLogger ''info''"
  let ?l1 = "mark ''error.k'' (mark ''info.k'' ?l0)"
  let ?l1' = "mark ''warn.k'' (mark ''info.k'' ?l0)"
  have c: "constructed ?l0 Stdout" by (rule ConsoleLogger_constructed)
  have c1: "constructed (mark ''info.k'' ?l0) Stdout" using c by simp
  have e: "onceRanEntries ?l0 = Map.empty" by (rule ConsoleLogger_constructed)
  have r: "run ?l0 [CallInfoOnce ''k'' ''e'' None, CallErrorOnce ''k'' ''e'' None] =
       ([Logged Stdout (leveled_record InfoValue ''e'' None),
         Logged Stdout (leveled_record ErrorValue ''e'' None)], Return ?l1)"
    by (simp add: step_Once_calls [OF c] step_Once_calls [OF c1] Once_step [OF c]
        Once_step [OF c1] ConsoleLogger_constructed passes_ConsoleLogger_info
        onceRanEntries_mark ret_def del: step.simps Once.simps)
  have r': "run ?l0 [CallInfoOnce ''k'' ''e'' None, CallWarnOnce ''k'' ''e'' None] =
       ([Logged Stdout (leveled_record InfoValue ''e'' None),
         Logged Stdout (leveled_record WarnValue ''e'' None)], Return ?l1')"
    by (simp add: step_Once_calls [OF c] step_Once_calls [OF c1] Once_step [OF c]
        Once_step [OF c1] ConsoleLogger_constructed passes_ConsoleLogger_info
        onceRanEntries_mark ret_def del: step.simps Once.simps)
  from HasWarnedOnce_iff_WarnOnce_called [OF c e r, of "''k''" "''w''" None]
  have no: "\<not> HasWarnedOnce ?l1 ''k''"
    and first: "snd (WarnOnce ?l1 ''k'' ''w'' None) = Return (mark ''warn.k'' ?l1, None, True)"
    by (simp_all add: map_delete_def)
  from HasWarnedOnce_iff_WarnOnce_called [OF c e r', of "''k''"]
  have yes: "HasWarnedOnce ?l1' ''k''" by simp
  from c e r no first r' yes show ?thesis by blast
qed

end
